theory Spec2Isabelle
  imports Main "HOL-Library.Sublist"
begin

section \<open>Text utilities of the NLP notebook\<close>

text \<open>
  The notebook \<^verbatim>\<open>task2.ipynb\<close> holds three pieces of string rewriting of its own:
  \<^item> \<^verbatim>\<open>convert_to_msa\<close>, a loop of \<^verbatim>\<open>str.replace\<close> over the dictionary
    \<^verbatim>\<open>dialect_mapping\<close>;
  \<^item> the abbreviation loop, \<^verbatim>\<open>re.sub(r'\b' + abbrev + r'\b', full_form, text)\<close> for every
    entry of \<^verbatim>\<open>abbreviations\<close>;
  \<^item> \<^verbatim>\<open>preprocess_for_sentiment\<close>, one \<^verbatim>\<open>re.sub\<close> that deletes the runs of characters
    outside a character class.

  A Python \<^verbatim>\<open>str\<close> is a sequence of Unicode code points, so a string is a list of
  natural numbers here (a HOL \<^typ>\<open>char\<close> is a byte and cannot hold an Arabic letter).
  A \<^verbatim>\<open>dict\<close> keeps its insertion order, which both loops depend on: it is an
  association list.
\<close>

type_synonym ustring = "nat list"

type_synonym mapping = "(ustring \<times> ustring) list"

text \<open>ASCII literals are written as HOL strings and read as their code points.\<close>

definition ascii :: "string \<Rightarrow> ustring" where
  "ascii s = map of_char s"

subsection \<open>\<^verbatim>\<open>str.replace\<close>\<close>

text \<open>
  \<^verbatim>\<open>text.replace(old, new)\<close> scans \<^verbatim>\<open>text\<close> from the left; where \<^verbatim>\<open>old\<close> starts it
  emits \<^verbatim>\<open>new\<close> and goes on behind the occurrence, elsewhere it copies one
  character. With an empty \<^verbatim>\<open>old\<close> Python puts \<^verbatim>\<open>new\<close> in front of every character and
  at the end (\<^verbatim>\<open>"ab".replace("", "-") == "-a-b-"\<close>).
\<close>

function replace_scan :: "ustring \<Rightarrow> ustring \<Rightarrow> ustring \<Rightarrow> ustring" where
  "replace_scan old new [] = []"
| "replace_scan old new (c # cs) =
     (if old \<noteq> [] \<and> prefix old (c # cs)
      then new @ replace_scan old new (drop (length old) (c # cs))
      else c # replace_scan old new cs)"
  by pat_completeness auto
termination
  by (relation "measure (\<lambda>(old, new, t). length t)") auto

definition str_replace :: "ustring \<Rightarrow> ustring \<Rightarrow> ustring \<Rightarrow> ustring" where
  "str_replace text old new =
     (if old = [] then new @ concat (map (\<lambda>c. c # new) text)
      else replace_scan old new text)"

subsection \<open>Dialect handling\<close>

text \<open>
  \<^verbatim>\<open>
  dialect_mapping = {
      k1: v1, k2: v2, k3: v3, k4: v4, k5: v5 }    # five pairs of Arabic words
  def convert_to_msa(text):
      for egyptian_word, msa_word in dialect_mapping.items():
          text = text.replace(egyptian_word, msa_word)
      return text
  \<close>
  The entries are given by their code points, in the order of the dictionary.
\<close>

definition dialect_mapping :: mapping where
  "dialect_mapping =
     [([0x639, 0x627, 0x64A, 0x632], [0x623, 0x631, 0x64A, 0x62F]),
      ([0x641, 0x64A, 0x646], [0x623, 0x64A, 0x646]),
      ([0x647, 0x627, 0x631, 0x648, 0x62D], [0x633, 0x623, 0x630, 0x647, 0x628]),
      ([0x643, 0x62F, 0x647],
       [0x628, 0x647, 0x630, 0x647, 0x20, 0x627, 0x644, 0x637, 0x631, 0x64A, 0x642, 0x629]),
      ([0x62D, 0x627, 0x62C, 0x629], [0x634, 0x64A, 0x621])]"

text \<open>The loop, for any dictionary; \<^verbatim>\<open>convert_to_msa\<close> runs it on the global one.\<close>

fun convert_to_msa_with :: "mapping \<Rightarrow> ustring \<Rightarrow> ustring" where
  "convert_to_msa_with [] text = text"
| "convert_to_msa_with ((egyptian_word, msa_word) # rest) text =
     convert_to_msa_with rest (str_replace text egyptian_word msa_word)"

definition convert_to_msa :: "ustring \<Rightarrow> ustring" where
  "convert_to_msa text = convert_to_msa_with dialect_mapping text"

text \<open>The sample sentence of the notebook, \<^verbatim>\<open>egyptian_arabic_text\<close>.\<close>

definition egyptian_arabic_text :: ustring where
  "egyptian_arabic_text =
     [0x623, 0x646, 0x627, 0x20, 0x639, 0x627, 0x64A, 0x632, 0x20,
      0x623, 0x631, 0x648, 0x62D, 0x20, 0x641, 0x64A, 0x646, 0x61F]"

subsection \<open>Word characters and \<^verbatim>\<open>\b\<close>\<close>

text \<open>
  For a \<^verbatim>\<open>str\<close> pattern, \<^verbatim>\<open>\w\<close> is a character with \<^verbatim>\<open>c.isalnum()\<close> or the
  underscore. On ASCII that is \<^verbatim>\<open>[A-Za-z0-9_]\<close>; beyond ASCII it is read from the
  Unicode database of the interpreter, which is a parameter \<open>uni\<close> here.
\<close>

definition ascii_alnum :: "nat \<Rightarrow> bool" where
  "ascii_alnum c = ((48 \<le> c \<and> c \<le> 57) \<or> (65 \<le> c \<and> c \<le> 90) \<or> (97 \<le> c \<and> c \<le> 122))"

definition is_word :: "(nat \<Rightarrow> bool) \<Rightarrow> nat \<Rightarrow> bool" where
  "is_word uni c = (if c < 128 then ascii_alnum c \<or> c = 95 else uni c)"

text \<open>A table with no alphanumeric character beyond ASCII, for evaluating ASCII inputs.\<close>

definition ascii_table :: "nat \<Rightarrow> bool" where
  "ascii_table c = False"

fun word_opt :: "(nat \<Rightarrow> bool) \<Rightarrow> nat option \<Rightarrow> bool" where
  "word_opt uni None = False"
| "word_opt uni (Some c) = is_word uni c"

fun head_opt :: "ustring \<Rightarrow> nat option" where
  "head_opt [] = None"
| "head_opt (c # cs) = Some c"

text \<open>
  \<^verbatim>\<open>\b\<close> holds at a position when exactly one of the two characters around it, \<open>prev\<close>
  and \<open>nxt\<close>, is a word character; a string edge counts as a non-word character.
\<close>

definition at_boundary :: "(nat \<Rightarrow> bool) \<Rightarrow> nat option \<Rightarrow> nat option \<Rightarrow> bool" where
  "at_boundary uni prev nxt = (word_opt uni prev \<noteq> word_opt uni nxt)"

subsection \<open>\<^verbatim>\<open>re.sub(r'\b' + abbrev + r'\b', full_form, text)\<close>\<close>

text \<open>
  \<^verbatim>\<open>abbrev\<close> is pasted into the pattern unescaped and \<^verbatim>\<open>full_form\<close> is a replacement
  template. The model covers the patterns in which every character of \<^verbatim>\<open>abbrev\<close> stands
  for itself (\<open>literal_pattern\<close>) and the templates without a backslash
  (\<open>literal_template\<close>); both entries of \<^verbatim>\<open>abbreviations\<close> are of this kind.
\<close>

text \<open>The special characters of a pattern: \<^verbatim>\<open>. ^ $ * + ? { } [ ] \ | ( )\<close>.\<close>

definition regex_special :: "nat list" where
  "regex_special = [46, 94, 36, 42, 43, 63, 123, 125, 91, 93, 92, 124, 40, 41]"

definition literal_pattern :: "ustring \<Rightarrow> bool" where
  "literal_pattern k = (list_all (\<lambda>c. c \<notin> set regex_special) k)"

definition literal_template :: "ustring \<Rightarrow> bool" where
  "literal_template v = (92 \<notin> set v)"

text \<open>
  The pattern matches at a position, with the character \<open>prev\<close> in front of it and the
  rest \<open>s\<close> of the text from it, when \<open>k\<close> starts there and \<^verbatim>\<open>\b\<close> holds at both ends of it.
\<close>

definition word_match :: "(nat \<Rightarrow> bool) \<Rightarrow> ustring \<Rightarrow> nat option \<Rightarrow> ustring \<Rightarrow> bool" where
  "word_match uni k prev s =
     (prefix k s \<and> at_boundary uni prev (head_opt s) \<and>
      at_boundary uni (if k = [] then prev else Some (last k)) (head_opt (drop (length k) s)))"

text \<open>
  \<^verbatim>\<open>re.sub\<close> replaces the leftmost matches that do not overlap. A non-empty \<open>k\<close>
  gives non-empty matches only: the scan emits \<open>v\<close> for a match and goes on behind
  it, or copies one character.
\<close>

function word_sub :: "(nat \<Rightarrow> bool) \<Rightarrow> ustring \<Rightarrow> ustring \<Rightarrow> nat option \<Rightarrow> ustring \<Rightarrow> ustring" where
  "word_sub uni k v prev [] = []"
| "word_sub uni k v prev (c # cs) =
     (if k \<noteq> [] \<and> word_match uni k prev (c # cs)
      then v @ word_sub uni k v (Some (last k)) (drop (length k) (c # cs))
      else c # word_sub uni k v (Some c) cs)"
  by pat_completeness auto
termination
  by (relation "measure (\<lambda>(uni, k, v, prev, t). length t)") auto

text \<open>
  With an empty \<open>k\<close> the pattern is \<^verbatim>\<open>\b\b\<close>: it matches the empty string at every
  word boundary, and \<^verbatim>\<open>re.sub\<close> (Python 3.7 and later) puts \<open>v\<close> there
  (\<^verbatim>\<open>re.sub(r'\b\b', 'X', 'ab cd') == 'XabX XcdX'\<close>).
\<close>

fun boundary_insert :: "(nat \<Rightarrow> bool) \<Rightarrow> ustring \<Rightarrow> nat option \<Rightarrow> ustring \<Rightarrow> ustring" where
  "boundary_insert uni v prev [] = (if at_boundary uni prev None then v else [])"
| "boundary_insert uni v prev (c # cs) =
     (if at_boundary uni prev (Some c) then v else []) @ c # boundary_insert uni v (Some c) cs"

definition re_sub_word :: "(nat \<Rightarrow> bool) \<Rightarrow> ustring \<Rightarrow> ustring \<Rightarrow> ustring \<Rightarrow> ustring" where
  "re_sub_word uni k v text =
     (if k = [] then boundary_insert uni v None text else word_sub uni k v None text)"

subsection \<open>Handling abbreviations\<close>

text \<open>
  \<^verbatim>\<open>
  text_with_abbrev = "I'm going to the gym ASAP"
  abbreviations = { "ASAP": "as soon as possible", "I'm": "I am" }
  for abbrev, full_form in abbreviations.items():
      text_with_abbrev = re.sub(r'\b' + abbrev + r'\b', full_form, text_with_abbrev)
  \<close>
\<close>

definition abbreviations :: mapping where
  "abbreviations =
     [(ascii ''ASAP'', ascii ''as soon as possible''), (ascii ''I'm'', ascii ''I am'')]"

definition text_with_abbrev :: ustring where
  "text_with_abbrev = ascii ''I'm going to the gym ASAP''"

fun expand_abbreviations :: "(nat \<Rightarrow> bool) \<Rightarrow> mapping \<Rightarrow> ustring \<Rightarrow> ustring" where
  "expand_abbreviations uni [] text = text"
| "expand_abbreviations uni ((abbrev, full_form) # rest) text =
     expand_abbreviations uni rest (re_sub_word uni abbrev full_form text)"

subsection \<open>Sentiment analysis preprocessing\<close>

text \<open>
  \<^verbatim>\<open>
  def preprocess_for_sentiment(text):
      cleaned_text = re.sub(r'[^A-Za-z0-9<U+0623>-<U+064A> ]+', '', text)
      return cleaned_text
  \<close>
  The class is negated: it holds the characters outside the ranges \<^verbatim>\<open>A-Z\<close>, \<^verbatim>\<open>a-z\<close>,
  \<^verbatim>\<open>0-9\<close>, U+0623 to U+064A, and the space.
\<close>

definition in_ranges :: "nat \<Rightarrow> bool" where
  "in_ranges c =
     ((65 \<le> c \<and> c \<le> 90) \<or> (97 \<le> c \<and> c \<le> 122) \<or> (48 \<le> c \<and> c \<le> 57) \<or>
      (0x623 \<le> c \<and> c \<le> 0x64A) \<or> c = 32)"

definition special_class :: "nat \<Rightarrow> bool" where
  "special_class c = (\<not> in_ranges c)"

text \<open>
  \<^verbatim>\<open>re.sub\<close> with the pattern \<^verbatim>\<open>[...]+\<close>: a match is a maximal run of characters of the
  class, replaced as a whole by \<open>repl\<close>.
\<close>

function re_sub_runs :: "(nat \<Rightarrow> bool) \<Rightarrow> ustring \<Rightarrow> ustring \<Rightarrow> ustring" where
  "re_sub_runs cls repl [] = []"
| "re_sub_runs cls repl (c # cs) =
     (if cls c then repl @ re_sub_runs cls repl (dropWhile cls cs)
      else c # re_sub_runs cls repl cs)"
  by pat_completeness auto
termination
  by (relation "measure (\<lambda>(cls, repl, t). length t)")
     (auto simp: length_dropWhile_le less_Suc_eq_le)

definition preprocess_for_sentiment :: "ustring \<Rightarrow> ustring" where
  "preprocess_for_sentiment text = re_sub_runs special_class [] text"

definition multilingual_text :: ustring where
  "multilingual_text =
     ascii ''I love programming! '' @
     [0x623, 0x62D, 0x628, 0x20, 0x627, 0x644, 0x628, 0x631, 0x645, 0x62C, 0x629, 0x21]"

subsection \<open>Calls with a text that is not a string\<close>






subsection \<open>Keys that a replacement cannot produce\<close>

text \<open>
  A replacement \<open>v\<close> put into a text can be part of a new occurrence of a key \<open>k\<close> only
  if the two overlap. \<open>clash_free k v\<close> excludes that: the first character of \<open>v\<close> is
  not in \<open>k\<close>, and no later part of \<open>v\<close> starts like \<open>k\<close> or is the start of \<open>k\<close>.
\<close>

fun tails_clash_free :: "ustring \<Rightarrow> ustring \<Rightarrow> bool" where
  "tails_clash_free k [] = True"
| "tails_clash_free k (a # w) =
     (\<not> prefix k (a # w) \<and> \<not> prefix (a # w) k \<and> tails_clash_free k w)"

definition clash_free :: "ustring \<Rightarrow> ustring \<Rightarrow> bool" where
  "clash_free k v = (case v of [] \<Rightarrow> False | a # w \<Rightarrow> a \<notin> set k \<and> tails_clash_free k w)"

text \<open>No key of the dictionary is empty, and no key overlaps a replacement.\<close>

definition stable_mapping :: "mapping \<Rightarrow> bool" where
  "stable_mapping m =
     list_all (\<lambda>(k, v). k \<noteq> [] \<and> list_all (\<lambda>(k', v'). clash_free k v') m) m"

subsection \<open>Whole-word occurrences\<close>


section \<open>Properties of \<^verbatim>\<open>str.replace\<close>\<close>

lemma replace_scan_absent: "\<not> sublist k t \<Longrightarrow> replace_scan k v t = t"
proof (induction t)
  case Nil
  show ?case by simp
next
  case (Cons c cs)
  from Cons.prems have "\<not> prefix k (c # cs)" and "\<not> sublist k cs"
    by (simp_all add: sublist_Cons_right)
  with Cons.IH show ?case by simp
qed

lemma prefix_before_occurrence:
  assumes "prefix k (p @ k @ s)" and "p \<noteq> []"
  shows "prefix k (p @ butlast k)"
proof (cases "k = []")
  case True
  then show ?thesis by simp
next
  case False
  then have "p @ k @ s = (p @ butlast k) @ (last k # s)" by simp
  with assms(1) have 1: "prefix k ((p @ butlast k) @ (last k # s))" by simp
  have 2: "prefix (p @ butlast k) ((p @ butlast k) @ (last k # s))" by simp
  from assms(2) False have 3: "length k \<le> length (p @ butlast k)"
    by (cases p) simp_all
  from 1 2 3 show ?thesis
    by (rule prefix_length_prefix)
qed

lemma replace_scan_first:
  assumes "k \<noteq> []" and "\<not> sublist k (p @ butlast k)"
  shows "replace_scan k v (p @ k @ s) = p @ v @ replace_scan k v s"
  using assms(2)
proof (induction p)
  case Nil
  from assms(1) obtain a k' where k: "k = a # k'" by (cases k) auto
  show ?case by (simp add: k)
next
  case (Cons c p)
  from Cons.prems have no: "\<not> prefix k ((c # p) @ butlast k)" and rest: "\<not> sublist k (p @ butlast k)"
    by (simp_all add: sublist_Cons_right)
  have "\<not> prefix k ((c # p) @ k @ s)"
    using no prefix_before_occurrence [of k "c # p" s] by blast
  with Cons.IH [OF rest] show ?case by simp
qed

lemma str_replace_first:
  "k \<noteq> [] \<Longrightarrow> \<not> sublist k (p @ butlast k) \<Longrightarrow>
   str_replace (p @ k @ s) k v = p @ v @ str_replace s k v"
  by (simp add: str_replace_def replace_scan_first)

lemma str_replace_absent: "k \<noteq> [] \<Longrightarrow> \<not> sublist k t \<Longrightarrow> str_replace t k v = t"
  by (simp add: str_replace_def replace_scan_absent)

section \<open>The dialect normalizer\<close>

text \<open>
  Claim C1. \<^verbatim>\<open>convert_to_msa\<close> takes the entries of the dictionary in their order and
  hands the text rewritten so far to the next entry. Each entry is a plain substring
  replacement over the whole text: the leftmost occurrence of the key is replaced
  whatever stands around it, the text in front of it is kept, the rest is rewritten the
  same way, and a text without the key is left alone. On the sample sentence, with the
  two entries of the claim and with the whole dictionary, both keys are replaced and
  every other character, the final question mark (U+061F) included, stays in place.
\<close>

theorem convert_to_msa_plain_replace:
  "convert_to_msa text = convert_to_msa_with dialect_mapping text \<and>
   convert_to_msa_with ((k, v) # rest) text = convert_to_msa_with rest (str_replace text k v) \<and>
   (k \<noteq> [] \<and> \<not> sublist k (p @ butlast k) \<longrightarrow>
      str_replace (p @ k @ s) k v = p @ v @ str_replace s k v) \<and>
   (k \<noteq> [] \<and> \<not> sublist k t \<longrightarrow> str_replace t k v = t) \<and>
   egyptian_arabic_text =
     [0x623, 0x646, 0x627, 0x20] @ [0x639, 0x627, 0x64A, 0x632] @
     [0x20, 0x623, 0x631, 0x648, 0x62D, 0x20] @ [0x641, 0x64A, 0x646] @ [0x61F] \<and>
   convert_to_msa_with
     [([0x639, 0x627, 0x64A, 0x632], [0x623, 0x631, 0x64A, 0x62F]),
      ([0x641, 0x64A, 0x646], [0x623, 0x64A, 0x646])] egyptian_arabic_text =
     [0x623, 0x646, 0x627, 0x20] @ [0x623, 0x631, 0x64A, 0x62F] @
     [0x20, 0x623, 0x631, 0x648, 0x62D, 0x20] @ [0x623, 0x64A, 0x646] @ [0x61F] \<and>
   convert_to_msa egyptian_arabic_text =
     [0x623, 0x646, 0x627, 0x20] @ [0x623, 0x631, 0x64A, 0x62F] @
     [0x20, 0x623, 0x631, 0x648, 0x62D, 0x20] @ [0x623, 0x64A, 0x646] @ [0x61F]"
proof -
  have "convert_to_msa_with
     [([0x639, 0x627, 0x64A, 0x632], [0x623, 0x631, 0x64A, 0x62F]),
      ([0x641, 0x64A, 0x646], [0x623, 0x64A, 0x646])] egyptian_arabic_text =
     [0x623, 0x646, 0x627, 0x20] @ [0x623, 0x631, 0x64A, 0x62F] @
     [0x20, 0x623, 0x631, 0x648, 0x62D, 0x20] @ [0x623, 0x64A, 0x646] @ [0x61F]"
    by (simp add: egyptian_arabic_text_def str_replace_def)
  moreover have "convert_to_msa egyptian_arabic_text =
     [0x623, 0x646, 0x627, 0x20] @ [0x623, 0x631, 0x64A, 0x62F] @
     [0x20, 0x623, 0x631, 0x648, 0x62D, 0x20] @ [0x623, 0x64A, 0x646] @ [0x61F]"
    by (simp add: convert_to_msa_def dialect_mapping_def egyptian_arabic_text_def
        str_replace_def)
  moreover have "egyptian_arabic_text =
     [0x623, 0x646, 0x627, 0x20] @ [0x639, 0x627, 0x64A, 0x632] @
     [0x20, 0x623, 0x631, 0x648, 0x62D, 0x20] @ [0x641, 0x64A, 0x646] @ [0x61F]"
    by (simp add: egyptian_arabic_text_def)
  ultimately show ?thesis
    by (simp add: convert_to_msa_def str_replace_first str_replace_absent)
qed

theorem convert_to_msa_plain_replace_witness:
  "ascii ''ab'' \<noteq> [] \<and> \<not> sublist (ascii ''ab'') (ascii ''c'' @ butlast (ascii ''ab'')) \<and>
   str_replace (ascii ''c'' @ ascii ''ab'' @ ascii ''dab'') (ascii ''ab'') (ascii ''Z'') =
     ascii ''c'' @ ascii ''Z'' @ str_replace (ascii ''dab'') (ascii ''ab'') (ascii ''Z'') \<and>
   \<not> sublist (ascii ''ab'') (ascii ''xyz'') \<and>
   str_replace (ascii ''xyz'') (ascii ''ab'') (ascii ''Z'') = ascii ''xyz''"
proof -
  have 1: "ascii ''ab'' \<noteq> []"
    by (simp add: ascii_def)
  have 2: "\<not> sublist (ascii ''ab'') (ascii ''c'' @ butlast (ascii ''ab''))"
    by (simp add: ascii_def sublist_Cons_right)
  have 3: "\<not> sublist (ascii ''ab'') (ascii ''xyz'')"
    by (simp add: ascii_def sublist_Cons_right)
  from 1 2 3
    convert_to_msa_plain_replace [where k = "ascii ''ab''" and v = "ascii ''Z''"
      and p = "ascii ''c''" and s = "ascii ''dab''" and t = "ascii ''xyz''"]
  show ?thesis by blast
qed

text \<open>
  Claim C7. With an empty dictionary neither loop runs: the dialect normalizer and the
  abbreviation expander return the text they were given.
\<close>

theorem empty_mapping_identity:
  "convert_to_msa_with [] t = t \<and> expand_abbreviations uni [] t = t"
  by simp

theorem empty_mapping_identity_witness:
  "convert_to_msa_with [] egyptian_arabic_text = egyptian_arabic_text \<and>
   expand_abbreviations ascii_table [] text_with_abbrev = text_with_abbrev"
  using empty_mapping_identity [of egyptian_arabic_text ascii_table]
    empty_mapping_identity [of text_with_abbrev ascii_table] by blast

subsection \<open>Idempotence on the dictionary of the notebook\<close>

lemma dialect_mapping_stable: "stable_mapping dialect_mapping"
  by (simp add: stable_mapping_def dialect_mapping_def clash_free_def)

lemma prefix_replace_scan:
  assumes "v \<noteq> []"
  shows "hd v \<notin> set p \<Longrightarrow> prefix p (replace_scan k v t) \<Longrightarrow> prefix p t"
proof (induction t arbitrary: p rule: length_induct)
  case (1 t)
  show ?case
  proof (cases p)
    case Nil
    then show ?thesis by simp
  next
    case (Cons a p')
    show ?thesis
    proof (cases t)
      case Nil
      with "1.prems" show ?thesis by simp
    next
      case t: (Cons c cs)
      show ?thesis
      proof (cases "k \<noteq> [] \<and> prefix k (c # cs)")
        case True
        with "1.prems"(2) t have "prefix (a # p') (v @ replace_scan k v (drop (length k) (c # cs)))"
          by (simp add: Cons)
        with assms have "a = hd v" by (cases v) simp_all
        with "1.prems"(1) Cons show ?thesis by simp
      next
        case False
        with "1.prems"(2) t Cons have "a = c" and "prefix p' (replace_scan k v cs)"
          by auto
        moreover from "1.prems"(1) Cons have "hd v \<notin> set p'" by simp
        ultimately have "prefix p' cs"
          using "1.IH" t by simp
        with \<open>a = c\<close> show ?thesis by (simp add: Cons t)
      qed
    qed
  qed
qed

lemma tails_clash_free_append:
  assumes "k \<noteq> []" and "\<not> sublist k x"
  shows "tails_clash_free k w \<Longrightarrow> \<not> sublist k (w @ x)"
proof (induction w)
  case Nil
  with assms show ?case by simp
next
  case (Cons a w)
  then have 1: "\<not> prefix k (a # w)" and 2: "\<not> prefix (a # w) k" and 3: "\<not> sublist k (w @ x)"
    by simp_all
  have "\<not> prefix k ((a # w) @ x)"
  proof
    assume "prefix k ((a # w) @ x)"
    moreover have "prefix (a # w) ((a # w) @ x)" by simp
    ultimately have "prefix k (a # w) \<or> prefix (a # w) k"
      by (rule prefix_same_cases)
    with 1 2 show False by simp
  qed
  with 3 show ?case by (simp add: sublist_Cons_right)
qed

lemma clash_free_append:
  assumes "k \<noteq> []" and "clash_free k v" and "\<not> sublist k x"
  shows "\<not> sublist k (v @ x)"
proof -
  from assms(2) obtain a w where v: "v = a # w" and a: "a \<notin> set k" and w: "tails_clash_free k w"
    by (auto simp: clash_free_def split: list.splits)
  from assms(1) a have "\<not> prefix k (a # w @ x)"
    by (cases k) auto
  moreover have "\<not> sublist k (w @ x)"
    using assms(1,3) w by (rule tails_clash_free_append)
  ultimately show ?thesis by (simp add: v sublist_Cons_right)
qed

lemma clash_free_hd: "clash_free k v \<Longrightarrow> v \<noteq> [] \<and> hd v \<notin> set k"
  by (auto simp: clash_free_def split: list.splits)

lemma replace_scan_keeps_absent:
  assumes "k \<noteq> []" and "k' \<noteq> []" and "clash_free k' v"
  shows "k' = k \<or> \<not> sublist k' t \<Longrightarrow> \<not> sublist k' (replace_scan k v t)"
proof (induction t rule: length_induct)
  case (1 t)
  show ?case
  proof (cases t)
    case Nil
    with assms(2) show ?thesis by simp
  next
    case t: (Cons c cs)
    show ?thesis
    proof (cases "prefix k (c # cs)")
      case True
      have "length (drop (length k) (c # cs)) < length t"
        using assms(1) t by (cases k) simp_all
      moreover have "k' = k \<or> \<not> sublist k' (drop (length k) (c # cs))"
        using "1.prems" t sublist_drop sublist_order.order_trans by blast
      ultimately have "\<not> sublist k' (replace_scan k v (drop (length k) (c # cs)))"
        using "1.IH" by blast
      with assms(2,3) have "\<not> sublist k' (v @ replace_scan k v (drop (length k) (c # cs)))"
        by (rule clash_free_append)
      with True assms(1) show ?thesis by (simp add: t)
    next
      case False
      have "\<not> prefix k' (replace_scan k v (c # cs))"
      proof
        assume "prefix k' (replace_scan k v (c # cs))"
        with clash_free_hd [OF assms(3)] have "prefix k' (c # cs)"
          using prefix_replace_scan by blast
        with False "1.prems" t show False
          by (auto simp: sublist_Cons_right)
      qed
      moreover have "\<not> sublist k' (replace_scan k v cs)"
        using "1.IH" "1.prems" t False by (auto simp: sublist_Cons_right)
      ultimately show ?thesis
        using False by (simp add: t sublist_Cons_right)
    qed
  qed
qed

lemma convert_keeps_absent:
  "\<forall>(k, v) \<in> set m. k \<noteq> [] \<and> (\<forall>k' \<in> K \<union> fst ` set m. clash_free k' v) \<Longrightarrow>
   \<forall>k' \<in> K. k' \<noteq> [] \<and> \<not> sublist k' t \<Longrightarrow>
   \<forall>k' \<in> K \<union> fst ` set m. \<not> sublist k' (convert_to_msa_with m t)"
proof (induction m arbitrary: t K)
  case Nil
  then show ?case by simp
next
  case (Cons e rest)
  obtain k v where e: "e = (k, v)" by (cases e)
  from Cons.prems(1) have k: "k \<noteq> []" and kv: "clash_free k v"
    and Kv: "\<forall>k' \<in> K. clash_free k' v"
    by (auto simp: e)
  have step: "\<forall>k' \<in> K \<union> {k}. k' \<noteq> [] \<and> \<not> sublist k' (str_replace t k v)"
  proof
    fix k' assume "k' \<in> K \<union> {k}"
    with Cons.prems(2) k kv Kv
    have "k' \<noteq> []" and "clash_free k' v" and "k' = k \<or> \<not> sublist k' t"
      by auto
    with k show "k' \<noteq> [] \<and> \<not> sublist k' (str_replace t k v)"
      by (simp add: str_replace_def replace_scan_keeps_absent)
  qed
  have "\<forall>(k2, v2) \<in> set rest. k2 \<noteq> [] \<and> (\<forall>k' \<in> (K \<union> {k}) \<union> fst ` set rest. clash_free k' v2)"
    using Cons.prems(1) by (auto simp: e)
  from Cons.IH [OF this step] show ?case
    by (simp add: e)
qed

lemma convert_absent:
  "\<forall>(k, v) \<in> set m. k \<noteq> [] \<and> \<not> sublist k t \<Longrightarrow> convert_to_msa_with m t = t"
  by (induction m) (auto simp: str_replace_def replace_scan_absent)

lemma stable_mapping_idem:
  assumes "stable_mapping m"
  shows "convert_to_msa_with m (convert_to_msa_with m t) = convert_to_msa_with m t"
proof -
  from assms have ne: "\<forall>(k, v) \<in> set m. k \<noteq> []"
    and cf: "\<forall>(k, v) \<in> set m. \<forall>(k', v') \<in> set m. clash_free k v'"
    by (auto simp: stable_mapping_def list_all_iff)
  have "\<forall>(k, v) \<in> set m. k \<noteq> [] \<and> (\<forall>k' \<in> {} \<union> fst ` set m. clash_free k' v)"
    using ne cf by fastforce
  then have "\<forall>k' \<in> {} \<union> fst ` set m. \<not> sublist k' (convert_to_msa_with m t)"
    by (rule convert_keeps_absent) simp
  with ne have "\<forall>(k, v) \<in> set m. k \<noteq> [] \<and> \<not> sublist k (convert_to_msa_with m t)"
    by fastforce
  then show ?thesis by (rule convert_absent)
qed

text \<open>
  Claim C10. With the dictionary of the notebook, converting a converted text changes
  nothing: no key is left in the result, since no replacement overlaps a key.
\<close>

theorem convert_to_msa_idempotent: "convert_to_msa (convert_to_msa t) = convert_to_msa t"
  unfolding convert_to_msa_def using dialect_mapping_stable by (rule stable_mapping_idem)

theorem convert_to_msa_idempotent_witness:
  "convert_to_msa (convert_to_msa egyptian_arabic_text) = convert_to_msa egyptian_arabic_text"
  by (rule convert_to_msa_idempotent)

section \<open>The character-set cleaner\<close>

lemma filter_dropWhile_class:
  "filter (\<lambda>c. \<not> cls c) (dropWhile cls cs) = filter (\<lambda>c. \<not> cls c) cs"
  by (induction cs) auto

lemma re_sub_runs_delete: "re_sub_runs cls [] t = filter (\<lambda>c. \<not> cls c) t"
  by (induction cls "[] :: ustring" t rule: re_sub_runs.induct)
     (simp_all add: filter_dropWhile_class)

lemma preprocess_filter: "preprocess_for_sentiment t = filter in_ranges t"
  by (simp add: preprocess_for_sentiment_def re_sub_runs_delete special_class_def)

lemma in_ranges_set:
  "in_ranges c \<longleftrightarrow> c \<in> {65..90} \<union> {97..122} \<union> {48..57} \<union> {32} \<union> {0x623..0x64A}"
  by (auto simp: in_ranges_def)

text \<open>
  Claim C4. For every text the cleaner returns the characters that are Latin letters
  (65 to 90, 97 to 122), digits (48 to 57), the space (32) or in U+0623 to U+064A, in
  their order, and nothing else. On the sample text it takes out the two exclamation
  marks (33) and keeps the rest.
\<close>

theorem cleaner_subsequence:
  "preprocess_for_sentiment t =
     filter (\<lambda>c. c \<in> {65..90} \<union> {97..122} \<union> {48..57} \<union> {32} \<union> {0x623..0x64A}) t \<and>
   multilingual_text =
     ascii ''I love programming'' @ [33] @ ascii '' '' @
     [0x623, 0x62D, 0x628, 0x20, 0x627, 0x644, 0x628, 0x631, 0x645, 0x62C, 0x629] @ [33] \<and>
   preprocess_for_sentiment multilingual_text =
     ascii ''I love programming'' @ ascii '' '' @
     [0x623, 0x62D, 0x628, 0x20, 0x627, 0x644, 0x628, 0x631, 0x645, 0x62C, 0x629]"
proof -
  have "filter in_ranges t =
     filter (\<lambda>c. c \<in> {65..90} \<union> {97..122} \<union> {48..57} \<union> {32} \<union> {0x623..0x64A}) t"
    by (rule filter_cong) (simp_all add: in_ranges_set)
  moreover have "preprocess_for_sentiment multilingual_text =
     ascii ''I love programming'' @ ascii '' '' @
     [0x623, 0x62D, 0x628, 0x20, 0x627, 0x644, 0x628, 0x631, 0x645, 0x62C, 0x629]"
    by (simp add: preprocess_filter in_ranges_def multilingual_text_def ascii_def)
  moreover have "multilingual_text =
     ascii ''I love programming'' @ [33] @ ascii '' '' @
     [0x623, 0x62D, 0x628, 0x20, 0x627, 0x644, 0x628, 0x631, 0x645, 0x62C, 0x629] @ [33]"
    by (simp add: multilingual_text_def ascii_def)
  ultimately show ?thesis
    by (simp only: preprocess_filter) 
qed

theorem cleaner_subsequence_witness:
  "preprocess_for_sentiment (ascii ''a-b, 1!'') = ascii ''ab 1''"
  using cleaner_subsequence [of "ascii ''a-b, 1!''"] by (simp add: ascii_def)

text \<open>
  Claim C5. Cleaning a cleaned text changes nothing. The empty text stays empty, a text
  of allowed characters only is returned as it is, and a text of other characters only
  becomes empty.
\<close>

theorem cleaner_idempotent:
  "preprocess_for_sentiment (preprocess_for_sentiment t) = preprocess_for_sentiment t \<and>
   preprocess_for_sentiment [] = [] \<and>
   ((\<forall>c \<in> set t. in_ranges c) \<longrightarrow> preprocess_for_sentiment t = t) \<and>
   ((\<forall>c \<in> set t. \<not> in_ranges c) \<longrightarrow> preprocess_for_sentiment t = [])"
  by (simp add: preprocess_filter filter_empty_conv)

theorem cleaner_idempotent_witness:
  "list_all in_ranges (ascii ''ab 1'') \<and>
   preprocess_for_sentiment (ascii ''ab 1'') = ascii ''ab 1'' \<and>
   list_all (\<lambda>c. \<not> in_ranges c) (ascii ''!?'') \<and>
   preprocess_for_sentiment (ascii ''!?'') = []"
proof -
  have 1: "\<forall>c \<in> set (ascii ''ab 1''). in_ranges c"
    by (simp add: ascii_def in_ranges_def)
  have 2: "\<forall>c \<in> set (ascii ''!?''). \<not> in_ranges c"
    by (simp add: ascii_def in_ranges_def)
  from 1 2 cleaner_idempotent [of "ascii ''ab 1''"] cleaner_idempotent [of "ascii ''!?''"]
  show ?thesis unfolding list_all_iff by blast
qed

text \<open>Claim C6. The cleaned text is never longer than the text.\<close>

theorem cleaner_length: "length (preprocess_for_sentiment t) \<le> length t"
  by (simp add: preprocess_filter)

theorem cleaner_length_witness:
  "length (preprocess_for_sentiment multilingual_text) \<le> length multilingual_text"
  by (rule cleaner_length)

text \<open>
  Claim C9. No character outside the literal ranges of the class survives: wherever it
  stands, it is taken out and the text around it is cleaned as before. In particular
  the Arabic letters U+0621 and U+0622 and the Arabic-Indic digits U+0660 to U+0669
  are deleted, although they are letters and digits.
\<close>

theorem cleaner_deletes_outside:
  "set (preprocess_for_sentiment t) \<subseteq>
     {65..90} \<union> {97..122} \<union> {48..57} \<union> {32} \<union> {0x623..0x64A} \<and>
   (c \<notin> {65..90} \<union> {97..122} \<union> {48..57} \<union> {32} \<union> {0x623..0x64A} \<longrightarrow>
      preprocess_for_sentiment (xs @ c # ys) =
        preprocess_for_sentiment xs @ preprocess_for_sentiment ys) \<and>
   (\<forall>d \<in> {0x621, 0x622} \<union> {0x660..0x669}.
      d \<notin> set (preprocess_for_sentiment t) \<and>
      preprocess_for_sentiment (xs @ d # ys) =
        preprocess_for_sentiment xs @ preprocess_for_sentiment ys)"
proof -
  have "set (preprocess_for_sentiment t) \<subseteq>
     {65..90} \<union> {97..122} \<union> {48..57} \<union> {32} \<union> {0x623..0x64A}"
    using in_ranges_set by (auto simp: preprocess_filter)
  moreover have "\<not> in_ranges d" if "d \<in> {0x621, 0x622} \<union> {0x660..0x669}" for d
    using that by (auto simp: in_ranges_def)
  ultimately show ?thesis
    by (auto simp: preprocess_filter in_ranges_set)
qed

theorem cleaner_deletes_outside_witness:
  "preprocess_for_sentiment ([0x633] @ 0x621 # [0x661, 0x31]) = [0x633, 0x31] \<and>
   0x621 \<notin> set (preprocess_for_sentiment [0x633, 0x621, 0x661, 0x31])"
proof -
  have "(0x621 :: nat) \<in> {0x621, 0x622} \<union> {0x660..0x669}" by simp
  with cleaner_deletes_outside [of "[0x633, 0x621, 0x661, 0x31]" _ "[0x633]" "[0x661, 0x31]"]
  have "0x621 \<notin> set (preprocess_for_sentiment [0x633, 0x621, 0x661, 0x31]) \<and>
      preprocess_for_sentiment ([0x633] @ 0x621 # [0x661, 0x31]) =
        preprocess_for_sentiment [0x633] @ preprocess_for_sentiment [0x661, 0x31]"
    by blast
  then show ?thesis
    by (simp add: preprocess_filter in_ranges_def)
qed

section \<open>The abbreviation expander\<close>














text \<open>
  Claim C3. On the sample text, the entry for \<^verbatim>\<open>ASAP\<close> first and the entry for \<^verbatim>\<open>I'm\<close>
  second, each as one pass over the text so far, give
  \<^verbatim>\<open>I am going to the gym as soon as possible\<close>. Both keys and both expansions are
  literal, so the pattern is the one of the model.
\<close>

theorem expand_sample:
  "abbreviations =
     [(ascii ''ASAP'', ascii ''as soon as possible''), (ascii ''I'm'', ascii ''I am'')] \<and>
   list_all (\<lambda>(k, v). literal_pattern k \<and> literal_template v) abbreviations \<and>
   re_sub_word uni (ascii ''ASAP'') (ascii ''as soon as possible'') text_with_abbrev =
     ascii ''I'm going to the gym as soon as possible'' \<and>
   expand_abbreviations uni abbreviations text_with_abbrev =
     ascii ''I am going to the gym as soon as possible''"
  by (simp add: abbreviations_def text_with_abbrev_def ascii_def literal_pattern_def
      literal_template_def regex_special_def re_sub_word_def word_match_def
      at_boundary_def is_word_def ascii_alnum_def)

theorem expand_sample_witness:
  "expand_abbreviations ascii_table abbreviations text_with_abbrev =
     ascii ''I am going to the gym as soon as possible''"
  using expand_sample [of ascii_table] by blast




section \<open>Arguments that are not well-formed\<close>








end
